theory Spec2Isabelle
  imports Main "HOL-Library.Word" "HOL-Library.Multiset"
begin

unbundle bit_operations_syntax

section \<open>Data types\<close>

text \<open>
  Go's \<open>int\<close> is modelled by \<open>int\<close>; \<open>uint32\<close> by \<open>32 word\<close>. A run-time panic of the
  Go program (integer division by zero, index out of range) is the value \<open>Inl\<close> of a
  sum; a loop that never ends is the value \<open>None\<close>.
\<close>

datatype fault = DivideByZero | IndexOutOfRange

type_synonym Err = string

definition OK :: Err where
  "OK = ''OK''"

definition ErrWrongCoordinator :: Err where
  "ErrWrongCoordinator = ''ErrWrongCoordinator''"

text \<open>\<open>type Message struct\<close>; the field \<open>id\<close> has the empty struct type \<open>MessageID\<close>.\<close>

type_synonym MessageID = unit

record Message =
  msg_id :: MessageID
  isHandoff :: bool
  handoffDestination :: string
  handoffUsername :: string
  data :: string
  collection :: string

record RequestID =
  ClientID :: "64 word"
  Seq :: "64 word"

record ReplicaPutArgs =
  Username :: string
  Msg :: Message
  Handoff :: bool

record ReplicaPutReply =
  Err :: Err

text \<open>
  \<open>type MMDatabase struct\<close>, without the mutex and the listener. The field \<open>localStore\<close>
  is the log of the calls of \<open>LocalPut\<close> on this node (see \<open>LocalPut\<close> below).
\<close>

record MMDatabase =
  me :: int
  dead :: bool
  unreliable :: bool
  servers :: "string list"
  nServers :: int
  nReplicas :: int
  handoffMessages :: "Message list"
  localStore :: "(string \<times> Message) list"

text \<open>A Go \<open>map[int]bool\<close>: reading a missing key gives \<open>false\<close>.\<close>

type_synonym intset = "int \<rightharpoonup> bool"

definition lookup :: "intset \<Rightarrow> int \<Rightarrow> bool" where
  "lookup m k = (case m k of None \<Rightarrow> False | Some b \<Rightarrow> b)"

section \<open>Helper functions\<close>

text \<open>\<open>hash\<close>: 32-bit FNV-1a (\<open>fnv.New32a\<close>, \<open>Write\<close>, \<open>Sum32\<close>).\<close>

definition fnv_step :: "32 word \<Rightarrow> char \<Rightarrow> 32 word" where
  "fnv_step h c = (h XOR word_of_nat (of_char c)) * 16777619"

definition hash :: "string \<Rightarrow> 32 word" where
  "hash s = foldl fnv_step 2166136261 s"

text \<open>Go's \<open>%\<close> on \<open>int\<close> truncates towards zero: the result has the sign of the dividend.\<close>

definition go_rem :: "int \<Rightarrow> int \<Rightarrow> int" where
  "go_rem a b = sgn a * (\<bar>a\<bar> mod \<bar>b\<bar>)"

text \<open>
  \<open>removeMessage\<close>: swap the element at \<open>index\<close> with the last one and cut the last
  position off. Indexing an empty slice, or outside the slice, panics.
\<close>

definition removeMessage :: "'a list \<Rightarrow> int \<Rightarrow> fault + 'a list" where
  "removeMessage sl index =
     (let maxIndex = int (length sl) - 1 in
      if maxIndex < 0 then Inl IndexOutOfRange
      else let lastElem = sl ! nat maxIndex in
        if index < 0 \<or> maxIndex < index then Inl IndexOutOfRange
        else let slice1 = sl[nat maxIndex := sl ! nat index];
                 slice2 = slice1[nat index := lastElem]
             in Inr (take (nat maxIndex) slice2))"

section \<open>The ring\<close>

text \<open>
  \<open>getCoordinatorIndex\<close>: \<open>int(hash(username) % uint32(db.nServers))\<close>. The conversion to
  \<open>uint32\<close> keeps the low 32 bits; a zero divisor panics.
\<close>

definition getCoordinatorIndex :: "MMDatabase \<Rightarrow> string \<Rightarrow> fault + int" where
  "getCoordinatorIndex db username =
     (let d = (word_of_int (nServers db) :: 32 word) in
      if d = 0 then Inl DivideByZero else Inr (uint (hash username mod d)))"

text \<open>
  The two loops of \<open>GetCoordinatorList\<close> have the shape
  \<open>for i := lo; i < hi; i++ { output = append(output, db.servers[i]) }\<close>.
\<close>

function copyRange :: "string list \<Rightarrow> int \<Rightarrow> int \<Rightarrow> string list \<Rightarrow> fault + string list" where
  "copyRange srv i hi output =
     (if i < hi then
        (if 0 \<le> i \<and> i < int (length srv)
         then copyRange srv (i + 1) hi (output @ [srv ! nat i])
         else Inl IndexOutOfRange)
      else Inr output)"
  by pat_completeness auto
termination
  by (relation "measure (\<lambda>(srv, i, hi, output). nat (hi - i))") auto

declare copyRange.simps [simp del]

definition GetCoordinatorList :: "MMDatabase \<Rightarrow> string \<Rightarrow> fault + string list" where
  "GetCoordinatorList db username =
     (case getCoordinatorIndex db username of
        Inl f \<Rightarrow> Inl f
      | Inr initialIndex \<Rightarrow>
          (case copyRange (servers db) initialIndex (int (length (servers db))) [] of
             Inl f \<Rightarrow> Inl f
           | Inr output \<Rightarrow> copyRange (servers db) 0 initialIndex output))"

section \<open>Hint-target selection\<close>

text \<open>
  The closing \<open>for { ... }\<close> of \<open>getHandoffTarget\<close>, entered with \<open>i = firstReplica\<close>.
  It has no exit but the \<open>return\<close>, so it is a partial function: \<open>None\<close> means that
  it never returns.
\<close>

partial_function (option) handoffScan ::
  "int \<Rightarrow> intset \<Rightarrow> intset \<Rightarrow> int \<Rightarrow> (fault + int) option" where
  "handoffScan nS replicaLocations handoffTargets i =
     (if \<not> lookup replicaLocations i \<and> \<not> lookup handoffTargets i then Some (Inr i)
      else if i + 1 \<ge> nS then
        (if nS = 0 then Some (Inl DivideByZero)
         else handoffScan nS replicaLocations handoffTargets (go_rem (i + 1) nS))
      else handoffScan nS replicaLocations handoffTargets (i + 1))"

declare handoffScan.simps [code]

definition getHandoffTarget ::
  "MMDatabase \<Rightarrow> string \<Rightarrow> int \<Rightarrow> intset \<Rightarrow> intset \<Rightarrow> (fault + int) option" where
  "getHandoffTarget db username currentIndex replicaLocations handoffTargets =
     (case getCoordinatorIndex db username of
        Inl f \<Rightarrow> Some (Inl f)
      | Inr firstReplica \<Rightarrow>
          (let lastReplica0 = firstReplica + nReplicas db;
               wrap = (lastReplica0 \<ge> nServers db)
           in if wrap \<and> nServers db = 0 then Some (Inl DivideByZero)
              else
                let lastReplica =
                      (if wrap then go_rem lastReplica0 (nServers db) else lastReplica0)
                in if (if wrap then currentIndex \<ge> firstReplica \<or> currentIndex \<le> lastReplica
                       else firstReplica \<le> currentIndex \<and> currentIndex \<le> lastReplica)
                   then Some (Inr (- 1))
                   else handoffScan (nServers db) replicaLocations handoffTargets firstReplica))"

section \<open>Node operations\<close>

text \<open>
  Modelled from the spec: the Local Store. The body of \<open>LocalPut\<close> in the source is a
  stub (\<open>// TODO\<close>, \<open>return OK\<close>) and the store itself is not part of the repository; the
  spec describes it as an opaque durable append-only map from a username to messages.
  The model appends the pair to the node's \<open>localStore\<close> and returns \<open>OK\<close> as the stub does.
\<close>

definition LocalPut :: "MMDatabase \<Rightarrow> string \<Rightarrow> Message \<Rightarrow> MMDatabase \<times> Err" where
  "LocalPut db username msg = (db\<lparr>localStore := localStore db @ [(username, msg)]\<rparr>, OK)"

text \<open>
  \<open>ReplicaPut\<close> works on its own copy of \<open>args.Msg\<close>; the pointer it appends to
  \<open>handoffMessages\<close> is to that copy, so the queue is a list of message values.
\<close>

definition ReplicaPut :: "MMDatabase \<Rightarrow> ReplicaPutArgs \<Rightarrow> MMDatabase \<times> ReplicaPutReply" where
  "ReplicaPut db args =
     (let message0 = Msg args;
          message = (if Handoff args then message0\<lparr>isHandoff := False\<rparr> else message0);
          db1 = fst (LocalPut db (Username args) message);
          db2 = (if isHandoff message
                 then db1\<lparr>handoffMessages := handoffMessages db1 @ [message]\<rparr>
                 else db1)
      in (db2, \<lparr>Err = OK\<rparr>))"

text \<open>
  \<open>StartServer\<close>, as far as it sets the fields of the node; \<open>servers[me]\<close> panics when
  \<open>me\<close> is not an index of \<open>servers\<close>.
\<close>

definition StartServer :: "string list \<Rightarrow> int \<Rightarrow> fault + MMDatabase" where
  "StartServer srv m =
     (if 0 \<le> m \<and> m < int (length srv)
      then Inr \<lparr>me = m, dead = False, unreliable = False, servers = srv,
                nServers = int (length srv), nReplicas = 3,
                handoffMessages = [], localStore = []\<rparr>
      else Inl IndexOutOfRange)"

section \<open>Peer transport\<close>

text \<open>
  The cluster: the nodes in the order of their index, and the fate of each of the
  coming remote calls.
\<close>

datatype delivery = Delivered | ReplyLost | Dropped

record world =
  nodes :: "MMDatabase list"
  net :: "delivery list"

definition address :: "MMDatabase \<Rightarrow> string option" where
  "address db =
     (if 0 \<le> me db \<and> me db < int (length (servers db))
      then Some (servers db ! nat (me db)) else None)"

fun findNode :: "MMDatabase list \<Rightarrow> string \<Rightarrow> nat option" where
  "findNode [] a = None"
| "findNode (d # ds) a =
     (if address d = Some a then Some 0 else map_option Suc (findNode ds a))"

text \<open>
  Modelled from the spec: the Peer Transport. The function \<open>call\<close> that the source uses
  is not part of the repository; the spec describes it as a request/reply to a named
  peer that may fail or drop, and the listener of the source discards a request, or
  serves it and discards the reply, when the node is unreliable; a dead node refuses
  every request. Each call takes the next fate from \<open>net\<close>: \<open>Delivered\<close> runs
  \<open>ReplicaPut\<close> on the node that listens at the address and returns its reply,
  \<open>ReplyLost\<close> runs it and reports failure, \<open>Dropped\<close> reports failure only. A call
  with no fate left, to an address where nobody listens, or to a dead node fails.
\<close>

definition call :: "world \<Rightarrow> string \<Rightarrow> ReplicaPutArgs \<Rightarrow> world \<times> bool \<times> ReplicaPutReply" where
  "call w server args =
     (case net w of
        [] \<Rightarrow> (w, False, \<lparr>Err = []\<rparr>)
      | d # ds \<Rightarrow>
          (let w1 = w\<lparr>net := ds\<rparr> in
           if d = Dropped then (w1, False, \<lparr>Err = []\<rparr>)
           else
             (case findNode (nodes w) server of
                None \<Rightarrow> (w1, False, \<lparr>Err = []\<rparr>)
              | Some k \<Rightarrow>
                  if dead (nodes w ! k) then (w1, False, \<lparr>Err = []\<rparr>)
                  else
                    (let (db', reply) = ReplicaPut (nodes w ! k) args;
                         w2 = w1\<lparr>nodes := (nodes w)[k := db']\<rparr>
                     in if d = Delivered then (w2, True, reply)
                        else (w2, False, \<lparr>Err = []\<rparr>)))))"

section \<open>The coordinator\<close>

text \<open>The local variables of \<open>CoordinatorPut\<close> that its loops change, and the cluster.\<close>

record putState =
  totalReplicas :: int
  replicaLocations :: intset
  handoffTargets :: intset
  message :: Message
  cluster :: world

text \<open>
  The block \<open>// Set Hinted Handoff\<close> of the loop body, after the call of
  \<open>getHandoffTarget\<close>: it changes \<open>message\<close> and \<open>handoffTargets\<close>.
\<close>

definition setHintedHandoff ::
  "MMDatabase \<Rightarrow> string \<Rightarrow> int \<Rightarrow> int \<Rightarrow> Message \<Rightarrow> intset \<Rightarrow> fault + Message \<times> intset" where
  "setHintedHandoff db username i handoffTarget msg targets =
     (if handoffTarget = - 1 then Inr (msg\<lparr>isHandoff := False\<rparr>, targets)
      else if 0 \<le> i \<and> i < int (length (servers db))
      then Inr (msg\<lparr>isHandoff := True,
                     handoffDestination := servers db ! nat i,
                     handoffUsername := username\<rparr>,
                targets(handoffTarget \<mapsto> True))
      else Inl IndexOutOfRange)"

text \<open>
  The body of the inner loop for the pair \<open>(i, server)\<close>, up to the test that breaks
  the loop. The node that runs \<open>CoordinatorPut\<close> is \<open>nodes ! c\<close> of the cluster.
\<close>

definition fanOut :: "nat \<Rightarrow> string \<Rightarrow> int \<Rightarrow> string \<Rightarrow> putState \<Rightarrow> (fault + putState) option" where
  "fanOut c username i server st =
     (let db = nodes (cluster st) ! c in
      if \<not> lookup (replicaLocations st) i \<and> i \<noteq> me db then
        (case getHandoffTarget db username i (replicaLocations st) (handoffTargets st) of
           None \<Rightarrow> None
         | Some (Inl f) \<Rightarrow> Some (Inl f)
         | Some (Inr handoffTarget) \<Rightarrow>
             (case setHintedHandoff db username i handoffTarget (message st) (handoffTargets st) of
                Inl f \<Rightarrow> Some (Inl f)
              | Inr (msg, targets) \<Rightarrow>
                  (let args = \<lparr>Username = username, Msg = msg, Handoff = False\<rparr>;
                       (w, ok, reply) = call (cluster st) server args;
                       st1 = st\<lparr>message := msg, handoffTargets := targets, cluster := w\<rparr>
                   in if ok \<and> Err reply = OK
                      then Some (Inr (st1\<lparr>totalReplicas := totalReplicas st1 + 1,
                                         replicaLocations := (replicaLocations st1)(i \<mapsto> True)\<rparr>))
                      else Some (Inr st1))))
      else Some (Inr st))"

text \<open>The inner loop \<open>for i, server := range(...)\<close> over the pairs that are left.\<close>

fun sweep :: "nat \<Rightarrow> string \<Rightarrow> (int \<times> string) list \<Rightarrow> putState \<Rightarrow> (fault + putState) option" where
  "sweep c username [] st = Some (Inr st)"
| "sweep c username ((i, server) # rest) st =
     (case fanOut c username i server st of
        None \<Rightarrow> None
      | Some (Inl f) \<Rightarrow> Some (Inl f)
      | Some (Inr st1) \<Rightarrow>
          if totalReplicas st1 \<ge> nReplicas (nodes (cluster st1) ! c) then Some (Inr st1)
          else sweep c username rest st1)"

definition enumerate_list :: "'a list \<Rightarrow> (int \<times> 'a) list" where
  "enumerate_list xs = zip (map int [0..<length xs]) xs"

text \<open>The outer loop \<open>for totalReplicas < db.nReplicas-1\<close>; \<open>None\<close> when it never ends.\<close>

partial_function (option) replicateLoop :: "nat \<Rightarrow> string \<Rightarrow> putState \<Rightarrow> (fault + putState) option" where
  "replicateLoop c username st =
     (if totalReplicas st < nReplicas (nodes (cluster st) ! c) - 1 then
        (case GetCoordinatorList (nodes (cluster st) ! c) username of
           Inl f \<Rightarrow> Some (Inl f)
         | Inr servers_list \<Rightarrow>
             (case sweep c username (enumerate_list servers_list) st of
                None \<Rightarrow> None
              | Some (Inl f) \<Rightarrow> Some (Inl f)
              | Some (Inr st1) \<Rightarrow> replicateLoop c username st1))
      else Some (Inr st))"

declare replicateLoop.simps [code]

definition CoordinatorPut ::
  "world \<Rightarrow> nat \<Rightarrow> string \<Rightarrow> RequestID \<Rightarrow> Message \<Rightarrow> (fault + Err \<times> world) option" where
  "CoordinatorPut w c username rid msg =
     (case getCoordinatorIndex (nodes w ! c) username of
        Inl f \<Rightarrow> Some (Inl f)
      | Inr ci \<Rightarrow>
          if ci \<noteq> me (nodes w ! c) \<and> \<not> isHandoff msg then Some (Inr (ErrWrongCoordinator, w))
          else
            (case replicateLoop c username
                    \<lparr>totalReplicas = 0, replicaLocations = Map.empty,
                     handoffTargets = Map.empty, message = msg, cluster = w\<rparr> of
               None \<Rightarrow> None
             | Some (Inl f) \<Rightarrow> Some (Inl f)
             | Some (Inr st) \<Rightarrow>
                 (let w1 = cluster st;
                      db' = fst (LocalPut (nodes w1 ! c) username (message st))
                  in Some (Inr (OK, w1\<lparr>nodes := (nodes w1)[c := db']\<rparr>)))))"

section \<open>The spec's reading of the primary set, and who holds a message\<close>

text \<open>
  The primary set as the spec words it: the half-open rotation
  \<open>[first, first + nReplicas)\<close> on the ring of \<open>nServers\<close> indices.
\<close>

definition primarySet_spec :: "int \<Rightarrow> int \<Rightarrow> int \<Rightarrow> int set" where
  "primarySet_spec first nRep nS = set (map (\<lambda>k. (first + int k) mod nS) [0..<nat nRep])"

text \<open>
  The set that the range check of \<open>getHandoffTarget\<close> accepts, as a rotation: it is
  closed at both ends, \<open>[first, first + nReplicas]\<close>.
\<close>

definition primarySet_code :: "int \<Rightarrow> int \<Rightarrow> int \<Rightarrow> int set" where
  "primarySet_code first nRep nS = set (map (\<lambda>k. (first + int k) mod nS) [0..<nat nRep + 1])"

text \<open>An index is free when it is in neither of the two maps.\<close>

definition isFree :: "intset \<Rightarrow> intset \<Rightarrow> int \<Rightarrow> bool" where
  "isFree replicated assigned j \<longleftrightarrow> \<not> lookup replicated j \<and> \<not> lookup assigned j"

text \<open>
  The configuration that \<open>StartServer\<close> sets up: \<open>nServers\<close> is the length of a
  non-empty server list, and it fits \<open>uint32\<close>.
\<close>

definition wellformed :: "MMDatabase \<Rightarrow> bool" where
  "wellformed db \<longleftrightarrow>
     nServers db = int (length (servers db)) \<and> 0 < nServers db \<and> nServers db < 2 ^ 32"

definition sameMessage :: "Message \<Rightarrow> Message \<Rightarrow> bool" where
  "sameMessage m1 m2 \<longleftrightarrow>
     msg_id m1 = msg_id m2 \<and> data m1 = data m2 \<and> collection m1 = collection m2"

definition holds :: "MMDatabase \<Rightarrow> string \<Rightarrow> Message \<Rightarrow> bool" where
  "holds db username msg \<longleftrightarrow>
     list_ex (\<lambda>(u, m). u = username \<and> sameMessage m msg) (localStore db)"

definition holders :: "world \<Rightarrow> string \<Rightarrow> Message \<Rightarrow> nat list" where
  "holders w username msg =
     filter (\<lambda>k. holds (nodes w ! k) username msg) [0..<length (nodes w)]"

section \<open>A cluster of five nodes\<close>

definition srv5 :: "string list" where
  "srv5 = [''s0'', ''s1'', ''s2'', ''s3'', ''s4'']"

definition node5 :: "int \<Rightarrow> MMDatabase" where
  "node5 k = \<lparr>me = k, dead = False, unreliable = False, servers = srv5,
              nServers = 5, nReplicas = 3, handoffMessages = [], localStore = []\<rparr>"

definition world5 :: "delivery list \<Rightarrow> world" where
  "world5 fates = \<lparr>nodes = map node5 [0, 1, 2, 3, 4], net = fates\<rparr>"

definition msg0 :: Message where
  "msg0 = \<lparr>msg_id = (), isHandoff = False, handoffDestination = [], handoffUsername = [],
           data = ''hello'', collection = ''inbox''\<rparr>"

definition rid0 :: RequestID where
  "rid0 = \<lparr>ClientID = 7, Seq = 1\<rparr>"

section \<open>Removal from the hint queue\<close>

lemma mset_swap_last:
  assumes "k < length xs"
  shows "mset (take (length xs - 1) ((xs[length xs - 1 := xs ! k])[k := last xs]))
         = mset xs - {# xs ! k #}"
proof -
  from assms have ne: "xs \<noteq> []" by auto
  obtain ys y where xs: "xs = ys @ [y]" using ne by (metis append_butlast_last_id)
  show ?thesis
  proof (cases "k = length ys")
    case True
    then show ?thesis using xs by simp
  next
    case False
    with assms xs have kl: "k < length ys" by simp
    have "take (length xs - 1) ((xs[length xs - 1 := xs ! k])[k := last xs]) = ys[k := y]"
      using kl xs by (simp add: list_update_append nth_append)
    moreover have "mset (ys[k := y]) = mset xs - {# xs ! k #}"
      using kl xs by (simp add: mset_update nth_append)
    ultimately show ?thesis by simp
  qed
qed

lemma removeMessage_eq:
  assumes "0 \<le> k" "k < int (length s)"
  shows "removeMessage s k =
         Inr (take (length s - 1) ((s[length s - 1 := s ! nat k])[nat k := last s]))"
proof -
  from assms have ne: "s \<noteq> []" by auto
  then have "nat (int (length s) - 1) = length s - 1" by simp
  moreover have "s ! (length s - 1) = last s" using ne by (simp add: last_conv_nth)
  ultimately show ?thesis
    using assms ne by (simp add: removeMessage_def Let_def)
qed

text \<open>
  Claim C9. For a slice \<open>s\<close> and an index \<open>k\<close> with \<open>0 \<le> k < len(s)\<close> (so \<open>s\<close> is not
  empty), \<open>removeMessage(s, k)\<close> returns a slice of length \<open>len(s) - 1\<close> whose multiset
  of elements is that of \<open>s\<close> with the element at position \<open>k\<close> taken out once.
\<close>

theorem removeMessage_mset:
  assumes "0 \<le> k" "k < int (length s)"
  shows "\<exists>r. removeMessage s k = Inr r \<and> length r = length s - 1
             \<and> mset r = mset s - {# s ! nat k #}"
proof -
  have kn: "nat k < length s" using assms by simp
  let ?r = "take (length s - 1) ((s[length s - 1 := s ! nat k])[nat k := last s])"
  have "removeMessage s k = Inr ?r" using assms by (rule removeMessage_eq)
  moreover have "length ?r = length s - 1" by simp
  moreover have "mset ?r = mset s - {# s ! nat k #}" using kn by (rule mset_swap_last)
  ultimately show ?thesis by blast
qed

theorem removeMessage_mset_witness:
  "(0::int) \<le> 1 \<and> 1 < int (length [''x'', ''y'', ''z'', ''w'']) \<and>
   (\<exists>r. removeMessage [''x'', ''y'', ''z'', ''w''] 1 = Inr r
      \<and> length r = length [''x'', ''y'', ''z'', ''w''] - 1
      \<and> mset r = mset [''x'', ''y'', ''z'', ''w''] - {# [''x'', ''y'', ''z'', ''w''] ! nat 1 #})"
  using removeMessage_mset [of 1 "[''x'', ''y'', ''z'', ''w'']"] by simp

section \<open>The replica acceptor\<close>

text \<open>
  Claim C6. \<open>ReplicaPut\<close> clears \<open>isHandoff\<close> of its copy of the message when
  \<open>args.Handoff\<close> is set, applies that message to the Local Store, appends it to the
  hint queue exactly when its \<open>isHandoff\<close> is still set, and replies \<open>OK\<close>, never
  \<open>ErrWrongCoordinator\<close>.
\<close>

theorem ReplicaPut_effect:
  "ReplicaPut db args =
     (let m = (if Handoff args then (Msg args)\<lparr>isHandoff := False\<rparr> else Msg args)
      in (db\<lparr>localStore := localStore db @ [(Username args, m)],
             handoffMessages := (if isHandoff m then handoffMessages db @ [m]
                                 else handoffMessages db)\<rparr>,
          \<lparr>Err = OK\<rparr>))
   \<and> Err (snd (ReplicaPut db args)) \<noteq> ErrWrongCoordinator"
  by (simp add: ReplicaPut_def LocalPut_def Let_def OK_def ErrWrongCoordinator_def)

text \<open>
  Claim C10. A \<open>ReplicaPut\<close> with \<open>args.Handoff = true\<close> leaves the hint queue of the
  receiving node as it was, whatever the \<open>isHandoff\<close> flag of the incoming message.
\<close>

theorem ReplicaPut_handoff_frame:
  "Handoff args \<Longrightarrow> handoffMessages (fst (ReplicaPut db args)) = handoffMessages db"
  by (simp add: ReplicaPut_def LocalPut_def Let_def)

theorem ReplicaPut_handoff_frame_witness:
  "Handoff \<lparr>Username = ''dave'', Msg = msg0\<lparr>isHandoff := True\<rparr>, Handoff = True\<rparr> \<and>
   handoffMessages (fst (ReplicaPut (node5 3)
       \<lparr>Username = ''dave'', Msg = msg0\<lparr>isHandoff := True\<rparr>, Handoff = True\<rparr>))
     = handoffMessages (node5 3)"
  using ReplicaPut_handoff_frame
    [of "\<lparr>Username = ''dave'', Msg = msg0\<lparr>isHandoff := True\<rparr>, Handoff = True\<rparr>" "node5 3"]
  by simp

section \<open>The preference list\<close>

lemma copyRange_take_drop:
  "0 \<le> i \<Longrightarrow> i \<le> hi \<Longrightarrow> hi \<le> int (length srv) \<Longrightarrow>
   copyRange srv i hi out = Inr (out @ take (nat (hi - i)) (drop (nat i) srv))"
proof (induction srv i hi out rule: copyRange.induct)
  case (1 srv i hi out)
  show ?case
  proof (cases "i < hi")
    case False
    with "1.prems" show ?thesis by (simp add: copyRange.simps)
  next
    case True
    with "1.prems" have inr: "0 \<le> i \<and> i < int (length srv)" by simp
    have step: "copyRange srv i hi out = copyRange srv (i + 1) hi (out @ [srv ! nat i])"
      using True inr by (subst copyRange.simps) simp
    have ih: "copyRange srv (i + 1) hi (out @ [srv ! nat i])
              = Inr ((out @ [srv ! nat i]) @ take (nat (hi - (i + 1))) (drop (nat (i + 1)) srv))"
      using "1.IH" [OF True inr] "1.prems" True by simp
    have n1: "nat (i + 1) = Suc (nat i)" using inr by arith
    have n2: "nat (hi - i) = Suc (nat (hi - (i + 1)))" using True by arith
    have nl: "nat i < length srv" using inr by arith
    have "drop (nat i) srv = srv ! nat i # drop (Suc (nat i)) srv"
      using nl by (rule Cons_nth_drop_Suc [symmetric])
    then have "take (nat (hi - i)) (drop (nat i) srv)
               = srv ! nat i # take (nat (hi - (i + 1))) (drop (nat (i + 1)) srv)"
      using n1 n2 by simp
    with step ih show ?thesis by simp
  qed
qed

lemma getCoordinatorIndex_wellformed:
  assumes "wellformed db"
  shows "getCoordinatorIndex db u = Inr (int (unat (hash u) mod length (servers db)))"
proof -
  let ?n = "length (servers db)"
  from assms have n: "nServers db = int ?n" "0 < ?n" "int ?n < 2 ^ 32"
    by (auto simp: wellformed_def)
  have u: "uint (word_of_int (int ?n) :: 32 word) = int ?n"
    using n by (simp add: uint_nat unat_of_nat)
  then have nz: "(word_of_int (int ?n) :: 32 word) \<noteq> 0"
    using n by (metis of_nat_0_less_iff less_irrefl uint_0_eq)
  have "uint (hash u mod word_of_int (int ?n)) = uint (hash u) mod int ?n"
    using u by (simp add: uint_mod)
  also have "\<dots> = int (unat (hash u) mod ?n)"
    by (simp add: zmod_int)
  finally show ?thesis
    using nz n by (simp add: getCoordinatorIndex_def Let_def)
qed

lemma GetCoordinatorList_rotate:
  assumes "wellformed db"
  shows "GetCoordinatorList db u
         = Inr (rotate (unat (hash u) mod length (servers db)) (servers db))"
proof -
  let ?srv = "servers db"
  let ?ci = "unat (hash u) mod length ?srv"
  from assms have pos: "0 < length ?srv" by (auto simp: wellformed_def)
  then have lt: "?ci < length ?srv" by simp
  have a: "copyRange ?srv (int ?ci) (int (length ?srv)) [] = Inr (drop ?ci ?srv)"
    using lt by (subst copyRange_take_drop) (simp_all add: nat_diff_distrib')
  have b: "copyRange ?srv 0 (int ?ci) (drop ?ci ?srv) = Inr (drop ?ci ?srv @ take ?ci ?srv)"
    using lt by (subst copyRange_take_drop) simp_all
  have "rotate ?ci ?srv = drop ?ci ?srv @ take ?ci ?srv"
    using lt by (simp add: rotate_drop_take)
  with a b show ?thesis
    by (simp add: GetCoordinatorList_def getCoordinatorIndex_wellformed [OF assms])
qed

lemma StartServer_wellformed:
  "StartServer srv m = Inr db \<Longrightarrow> length srv < 2 ^ 32 \<Longrightarrow> wellformed db"
  by (auto simp: StartServer_def wellformed_def split: if_splits)

text \<open>
  Claim C5. On a node whose \<open>nServers\<close> is the length of its non-empty server list (and
  fits \<open>uint32\<close>), \<open>GetCoordinatorList(u)\<close> is the rotation of the server list that
  starts at \<open>getCoordinatorIndex(u) = hash(u) mod nServers\<close>: its \<open>k\<close>-th element is
  \<open>servers[(coordinatorIndex(u) + k) mod nServers]\<close>, it is a permutation of the server
  list, and it is a function of \<open>u\<close> and the server list alone.
\<close>

theorem GetCoordinatorList_rotation:
  assumes "wellformed db"
  shows "\<exists>ci l. getCoordinatorIndex db u = Inr (int ci)
           \<and> ci = unat (hash u) mod nat (nServers db)
           \<and> GetCoordinatorList db u = Inr l
           \<and> length l = nat (nServers db)
           \<and> (\<forall>k. k < nat (nServers db) \<longrightarrow> l ! k = servers db ! ((ci + k) mod nat (nServers db)))
           \<and> mset l = mset (servers db)
           \<and> l = rotate (unat (hash u) mod length (servers db)) (servers db)"
proof -
  let ?srv = "servers db"
  let ?ci = "unat (hash u) mod length ?srv"
  from assms have n: "nat (nServers db) = length ?srv" by (simp add: wellformed_def)
  have "getCoordinatorIndex db u = Inr (int ?ci)"
    using assms by (rule getCoordinatorIndex_wellformed)
  moreover have "GetCoordinatorList db u = Inr (rotate ?ci ?srv)"
    using assms by (rule GetCoordinatorList_rotate)
  moreover have "\<forall>k. k < length ?srv \<longrightarrow> rotate ?ci ?srv ! k = ?srv ! ((?ci + k) mod length ?srv)"
    by (simp add: nth_rotate)
  moreover have "mset (rotate ?ci ?srv) = mset ?srv"
  proof -
    have "mset (rotate ?ci ?srv) = mset (drop ?ci ?srv) + mset (take ?ci ?srv)"
      by (simp add: rotate_drop_take)
    also have "\<dots> = mset (take ?ci ?srv @ drop ?ci ?srv)"
      by (metis mset_append union_commute)
    finally show ?thesis by simp
  qed
  ultimately show ?thesis using n by simp
qed

theorem GetCoordinatorList_rotation_witness:
  "wellformed (node5 1) \<and>
   (\<exists>ci l. getCoordinatorIndex (node5 1) ''dave'' = Inr (int ci)
           \<and> ci = unat (hash ''dave'') mod nat (nServers (node5 1))
           \<and> GetCoordinatorList (node5 1) ''dave'' = Inr l
           \<and> length l = nat (nServers (node5 1))
           \<and> (\<forall>k. k < nat (nServers (node5 1)) \<longrightarrow> l ! k = servers (node5 1) ! ((ci + k) mod nat (nServers (node5 1))))
           \<and> mset l = mset (servers (node5 1))
           \<and> l = rotate (unat (hash ''dave'') mod length (servers (node5 1))) (servers (node5 1)))"
proof -
  have wf: "wellformed (node5 1)" by (simp add: wellformed_def node5_def srv5_def)
  from GetCoordinatorList_rotation [OF wf, of "''dave''"] wf show ?thesis by blast
qed

section \<open>The scan for a hint target\<close>

lemma handoffScan_free:
  "isFree rep asg i \<Longrightarrow> handoffScan nS rep asg i = Some (Inr i)"
  by (subst handoffScan.simps) (simp add: isFree_def)

lemma handoffScan_step:
  assumes "\<not> isFree rep asg i" "0 \<le> i" "i < nS"
  shows "handoffScan nS rep asg i = handoffScan nS rep asg ((i + 1) mod nS)"
proof (cases "i + 1 \<ge> nS")
  case True
  with assms have eq: "i + 1 = nS" and pos: "nS \<noteq> 0" by auto
  have "go_rem (i + 1) nS = 0" using eq pos by (simp add: go_rem_def)
  moreover have "(i + 1) mod nS = 0" using eq by simp
  ultimately show ?thesis
    using assms(1) True pos by (subst handoffScan.simps) (auto simp: isFree_def)
next
  case False
  with assms have "(i + 1) mod nS = i + 1" by simp
  then show ?thesis
    using assms(1) False by (subst handoffScan.simps) (auto simp: isFree_def)
qed

lemma handoffScan_distance:
  assumes "0 \<le> s" "s < nS"
    and "isFree rep asg ((s + int d) mod nS)"
    and "\<forall>e<d. \<not> isFree rep asg ((s + int e) mod nS)"
  shows "handoffScan nS rep asg s = Some (Inr ((s + int d) mod nS))"
  using assms
proof (induction d arbitrary: s)
  case 0
  then show ?case by (simp add: handoffScan_free)
next
  case (Suc d)
  let ?s = "(s + 1) mod nS"
  have pos: "0 < nS" using Suc.prems by simp
  have nf: "\<not> isFree rep asg s"
    using Suc.prems(4) [rule_format, of 0] Suc.prems(1,2) by simp
  have step: "handoffScan nS rep asg s = handoffScan nS rep asg ?s"
    using nf Suc.prems(1,2) by (rule handoffScan_step)
  have shift: "(?s + int e) mod nS = (s + int (Suc e)) mod nS" for e
  proof -
    have "(?s + int e) mod nS = ((s + 1) + int e) mod nS"
      by (rule mod_add_left_eq)
    also have "(s + 1) + int e = s + int (Suc e)" by simp
    finally show ?thesis .
  qed
  have rng: "0 \<le> ?s" "?s < nS" using pos by simp_all
  have "handoffScan nS rep asg ?s = Some (Inr ((?s + int d) mod nS))"
  proof (rule Suc.IH [OF rng])
    show "isFree rep asg ((?s + int d) mod nS)"
      using Suc.prems(3) by (simp only: shift)
    show "\<forall>e<d. \<not> isFree rep asg ((?s + int e) mod nS)"
      using Suc.prems(4) by (simp only: shift) auto
  qed
  with step show ?case by (simp only: shift)
qed

lemma handoffScan_first_free:
  assumes "0 \<le> s" "s < nS" "0 \<le> k" "k < nS" "isFree rep asg k"
  shows "\<exists>d. d < nat nS
           \<and> handoffScan nS rep asg s = Some (Inr ((s + int d) mod nS))
           \<and> isFree rep asg ((s + int d) mod nS)
           \<and> (\<forall>e<d. \<not> isFree rep asg ((s + int e) mod nS))"
proof -
  let ?P = "\<lambda>d. isFree rep asg ((s + int d) mod nS)"
  let ?far = "nat ((k - s) mod nS)"
  have pos: "0 < nS" using assms by simp
  have "(s + int ?far) mod nS = k mod nS"
    using pos by (simp add: mod_add_right_eq)
  then have P0: "?P ?far" using assms by simp
  have dfar: "?far < nat nS" using pos by (simp add: nat_less_iff)
  let ?d = "LEAST d. ?P d"
  have Pd: "?P ?d" using P0 by (rule LeastI)
  have le: "?d \<le> ?far" using P0 by (rule Least_le)
  have mn: "\<forall>e<?d. \<not> ?P e" using not_less_Least by blast
  have "handoffScan nS rep asg s = Some (Inr ((s + int ?d) mod nS))"
    using assms(1,2) Pd mn by (rule handoffScan_distance)
  moreover have "?d < nat nS" using le dfar by (rule le_less_trans)
  ultimately show ?thesis using Pd mn by blast
qed

section \<open>The coordinator check\<close>

text \<open>
  Claim C4. When \<open>getCoordinatorIndex\<close> returns \<open>ci\<close>: \<open>CoordinatorPut\<close> returns
  \<open>ErrWrongCoordinator\<close> exactly when \<open>ci\<close> differs from \<open>me\<close> and the message is not
  flagged as a handoff, and then the cluster is unchanged. A call whose message is
  flagged as a handoff (as one on the coordinator itself) passes the check and goes on:
  its result is that of the replication loop started on the message and the cluster as
  they came in, followed by the \<open>LocalPut\<close> on the receiving node and \<open>OK\<close>; it never
  ends, or panics, exactly when that loop does.
\<close>

theorem CoordinatorPut_wrong_coordinator:
  assumes "getCoordinatorIndex (nodes w ! c) username = Inr ci"
  shows "(ci \<noteq> me (nodes w ! c) \<and> \<not> isHandoff msg \<longrightarrow>
            CoordinatorPut w c username rid msg = Some (Inr (ErrWrongCoordinator, w)))
       \<and> ((\<exists>w'. CoordinatorPut w c username rid msg = Some (Inr (ErrWrongCoordinator, w')))
            \<longrightarrow> ci \<noteq> me (nodes w ! c) \<and> \<not> isHandoff msg)
       \<and> (isHandoff msg \<longrightarrow>
            (\<forall>e w'. CoordinatorPut w c username rid msg = Some (Inr (e, w')) \<longrightarrow> e = OK))
       \<and> (isHandoff msg \<or> ci = me (nodes w ! c) \<longrightarrow>
            CoordinatorPut w c username rid msg =
              (case replicateLoop c username
                      \<lparr>totalReplicas = 0, replicaLocations = Map.empty,
                       handoffTargets = Map.empty, message = msg, cluster = w\<rparr> of
                 None \<Rightarrow> None
               | Some (Inl f) \<Rightarrow> Some (Inl f)
               | Some (Inr st) \<Rightarrow>
                   Some (Inr (OK, (cluster st)\<lparr>nodes := (nodes (cluster st))
                     [c := (nodes (cluster st) ! c)\<lparr>localStore :=
                        localStore (nodes (cluster st) ! c) @ [(username, message st)]\<rparr>]\<rparr>))))"
proof -
  have err: "ci \<noteq> me (nodes w ! c) \<and> \<not> isHandoff msg \<longrightarrow>
            CoordinatorPut w c username rid msg = Some (Inr (ErrWrongCoordinator, w))"
    using assms by (simp add: CoordinatorPut_def)
  have go: "isHandoff msg \<or> ci = me (nodes w ! c) \<longrightarrow>
            CoordinatorPut w c username rid msg =
              (case replicateLoop c username
                      \<lparr>totalReplicas = 0, replicaLocations = Map.empty,
                       handoffTargets = Map.empty, message = msg, cluster = w\<rparr> of
                 None \<Rightarrow> None
               | Some (Inl f) \<Rightarrow> Some (Inl f)
               | Some (Inr st) \<Rightarrow>
                   Some (Inr (OK, (cluster st)\<lparr>nodes := (nodes (cluster st))
                     [c := (nodes (cluster st) ! c)\<lparr>localStore :=
                        localStore (nodes (cluster st) ! c) @ [(username, message st)]\<rparr>]\<rparr>)))"
    using assms by (auto simp: CoordinatorPut_def LocalPut_def Let_def split: option.splits sum.splits)
  have only: "(\<exists>w'. CoordinatorPut w c username rid msg = Some (Inr (ErrWrongCoordinator, w')))
            \<longrightarrow> ci \<noteq> me (nodes w ! c) \<and> \<not> isHandoff msg"
    using assms
    by (auto simp: CoordinatorPut_def Let_def OK_def ErrWrongCoordinator_def
             split: option.splits sum.splits)
  have ok: "isHandoff msg \<longrightarrow>
            (\<forall>e w'. CoordinatorPut w c username rid msg = Some (Inr (e, w')) \<longrightarrow> e = OK)"
    using assms
    by (auto simp: CoordinatorPut_def Let_def split: option.splits sum.splits)
  from err only ok go show ?thesis by blast
qed

theorem CoordinatorPut_wrong_coordinator_witness:
  "getCoordinatorIndex (nodes (world5 []) ! 2) ''dave'' = Inr 1
   \<and> 1 \<noteq> me (nodes (world5 []) ! 2) \<and> \<not> isHandoff msg0
   \<and> CoordinatorPut (world5 []) 2 ''dave'' rid0 msg0 = Some (Inr (ErrWrongCoordinator, world5 []))
   \<and> getCoordinatorIndex (nodes (world5 [Delivered, Delivered, Delivered, Delivered]) ! 2) ''dave''
       = Inr 1
   \<and> isHandoff (msg0\<lparr>isHandoff := True\<rparr>)
   \<and> CoordinatorPut (world5 [Delivered, Delivered, Delivered, Delivered]) 2 ''dave'' rid0
        (msg0\<lparr>isHandoff := True\<rparr>) =
        (case replicateLoop 2 ''dave''
                \<lparr>totalReplicas = 0, replicaLocations = Map.empty,
                 handoffTargets = Map.empty, message = msg0\<lparr>isHandoff := True\<rparr>,
                 cluster = world5 [Delivered, Delivered, Delivered, Delivered]\<rparr> of
           None \<Rightarrow> None
         | Some (Inl f) \<Rightarrow> Some (Inl f)
         | Some (Inr st) \<Rightarrow>
             Some (Inr (OK, (cluster st)\<lparr>nodes := (nodes (cluster st))
               [2 := (nodes (cluster st) ! 2)\<lparr>localStore :=
                  localStore (nodes (cluster st) ! 2) @ [(''dave'', message st)]\<rparr>]\<rparr>)))
   \<and> map_option (map_sum id (\<lambda>(e, w). (e, holders w ''dave'' msg0, net w)))
        (CoordinatorPut (world5 [Delivered, Delivered, Delivered, Delivered]) 2 ''dave'' rid0
           (msg0\<lparr>isHandoff := True\<rparr>))
       = Some (Inr (OK, [1, 2, 4], [Delivered]))"
proof -
  have ci: "getCoordinatorIndex (nodes (world5 []) ! 2) ''dave'' = Inr 1"
    by code_simp
  have ci': "getCoordinatorIndex (nodes (world5 [Delivered, Delivered, Delivered, Delivered]) ! 2)
               ''dave'' = Inr 1"
    by code_simp
  have cond: "1 \<noteq> me (nodes (world5 []) ! 2) \<and> \<not> isHandoff msg0"
    by (simp add: world5_def node5_def msg0_def)
  have flag: "isHandoff (msg0\<lparr>isHandoff := True\<rparr>)" by simp
  have run: "map_option (map_sum id (\<lambda>(e, w). (e, holders w ''dave'' msg0, net w)))
        (CoordinatorPut (world5 [Delivered, Delivered, Delivered, Delivered]) 2 ''dave'' rid0
           (msg0\<lparr>isHandoff := True\<rparr>))
       = Some (Inr (OK, [1, 2, 4], [Delivered]))"
    by code_simp
  from CoordinatorPut_wrong_coordinator [OF ci, of msg0 rid0]
       CoordinatorPut_wrong_coordinator [OF ci', of "msg0\<lparr>isHandoff := True\<rparr>" rid0]
       cond ci ci' flag run
  show ?thesis by blast
qed

section \<open>The range check of getHandoffTarget\<close>

lemma mod_twice:
  fixes x n :: int
  assumes "0 \<le> x" "x < 2 * n"
  shows "x mod n = (if x < n then x else x - n)"
proof (cases "x < n")
  case True
  with assms show ?thesis by simp
next
  case False
  with assms have "0 \<le> x - n" "x - n < n" by auto
  then have "(x - n) mod n = x - n" by (rule mod_pos_pos_trivial)
  moreover have "(x - n) mod n = x mod n"
    using mod_add_self2 [of "x - n" n] by simp
  ultimately show ?thesis using False by simp
qed

lemma primarySet_code_iff:
  assumes "0 \<le> first" "first < nS" "0 \<le> nRep" "nRep \<le> nS" "0 \<le> i" "i < nS"
  shows "i \<in> primarySet_code first nRep nS \<longleftrightarrow>
         (if first + nRep \<ge> nS then i \<ge> first \<or> i \<le> go_rem (first + nRep) nS
          else first \<le> i \<and> i \<le> first + nRep)"
proof -
  have mem: "i \<in> primarySet_code first nRep nS \<longleftrightarrow> (\<exists>k. 0 \<le> k \<and> k \<le> nRep \<and> i = (first + k) mod nS)"
  proof
    assume "i \<in> primarySet_code first nRep nS"
    then have "i \<in> (\<lambda>k. (first + int k) mod nS) ` {0..<nat nRep + 1}"
      unfolding primarySet_code_def set_map set_upt .
    then obtain k where "k < nat nRep + 1" "i = (first + int k) mod nS"
      by (auto simp del: atLeastLessThanSuc_atLeastAtMost)
    then show "\<exists>k. 0 \<le> k \<and> k \<le> nRep \<and> i = (first + k) mod nS"
      using assms(3) by (intro exI [of _ "int k"]) auto
  next
    assume "\<exists>k. 0 \<le> k \<and> k \<le> nRep \<and> i = (first + k) mod nS"
    then obtain k where k: "0 \<le> k" "k \<le> nRep" "i = (first + k) mod nS" by blast
    then have "nat k < nat nRep + 1" "i = (first + int (nat k)) mod nS" by auto
    then have "i \<in> (\<lambda>k. (first + int k) mod nS) ` {0..<nat nRep + 1}"
      by (intro image_eqI [of _ _ "nat k"]) simp_all
    then show "i \<in> primarySet_code first nRep nS"
      unfolding primarySet_code_def set_map set_upt .
  qed
  have md: "(first + k) mod nS = (if first + k < nS then first + k else first + k - nS)"
    if "0 \<le> k" "k \<le> nRep" for k
    using that assms by (intro mod_twice) auto
  show ?thesis
  proof (cases "first + nRep \<ge> nS")
    case False
    have "(\<exists>k. 0 \<le> k \<and> k \<le> nRep \<and> i = (first + k) mod nS) \<longleftrightarrow> first \<le> i \<and> i \<le> first + nRep"
    proof
      assume "\<exists>k. 0 \<le> k \<and> k \<le> nRep \<and> i = (first + k) mod nS"
      then obtain k where k: "0 \<le> k" "k \<le> nRep" "i = (first + k) mod nS" by blast
      with md [OF k(1,2)] False show "first \<le> i \<and> i \<le> first + nRep" by auto
    next
      assume a: "first \<le> i \<and> i \<le> first + nRep"
      then have "0 \<le> i - first" "i - first \<le> nRep" by auto
      moreover from md [OF this] False a have "i = (first + (i - first)) mod nS" by auto
      ultimately show "\<exists>k. 0 \<le> k \<and> k \<le> nRep \<and> i = (first + k) mod nS" by blast
    qed
    with mem False show ?thesis by simp
  next
    case True
    have last: "go_rem (first + nRep) nS = first + nRep - nS"
    proof -
      have "0 \<le> first + nRep" "first + nRep < 2 * nS" using assms by auto
      from mod_twice [OF this] True have "(first + nRep) mod nS = first + nRep - nS" by simp
      moreover have "go_rem (first + nRep) nS = (first + nRep) mod nS"
        using assms True by (cases "first + nRep = 0") (auto simp: go_rem_def sgn_if)
      ultimately show ?thesis by simp
    qed
    have "(\<exists>k. 0 \<le> k \<and> k \<le> nRep \<and> i = (first + k) mod nS) \<longleftrightarrow> i \<ge> first \<or> i \<le> first + nRep - nS"
    proof
      assume "\<exists>k. 0 \<le> k \<and> k \<le> nRep \<and> i = (first + k) mod nS"
      then obtain k where k: "0 \<le> k" "k \<le> nRep" "i = (first + k) mod nS" by blast
      with md [OF k(1,2)] show "i \<ge> first \<or> i \<le> first + nRep - nS"
        by (auto split: if_splits)
    next
      assume a: "i \<ge> first \<or> i \<le> first + nRep - nS"
      show "\<exists>k. 0 \<le> k \<and> k \<le> nRep \<and> i = (first + k) mod nS"
      proof (cases "i \<ge> first")
        case True
        then have r: "0 \<le> i - first" "i - first \<le> nRep" using assms \<open>nS \<le> first + nRep\<close> by auto
        from md [OF r] assms have "i = (first + (i - first)) mod nS" by auto
        with r show ?thesis by blast
      next
        case False
        with a have le: "i \<le> first + nRep - nS" by simp
        have r: "0 \<le> i + nS - first" "i + nS - first \<le> nRep" using assms le by auto
        from md [OF r] assms have "i = (first + (i + nS - first)) mod nS" by auto
        with r show ?thesis by blast
      qed
    qed
    with mem True last show ?thesis by simp
  qed
qed

lemma getHandoffTarget_cases:
  assumes wf: "wellformed db"
    and rep: "0 \<le> nReplicas db" "nReplicas db \<le> nServers db"
    and i: "0 \<le> i" "i < nServers db"
    and ci: "getCoordinatorIndex db u = Inr first"
  shows "getHandoffTarget db u i replicated assigned =
         (if i \<in> primarySet_code first (nReplicas db) (nServers db) then Some (Inr (- 1))
          else handoffScan (nServers db) replicated assigned first)"
proof -
  from wf have pos: "0 < nServers db" and len: "nServers db = int (length (servers db))"
    by (auto simp: wellformed_def)
  from ci getCoordinatorIndex_wellformed [OF wf, of u]
  have f: "first = int (unat (hash u) mod length (servers db))" by simp
  have f0: "0 \<le> first" using f by simp
  have "unat (hash u) mod length (servers db) < length (servers db)" using pos len by simp
  then have f1: "first < nServers db" using f len by simp
  note iff = primarySet_code_iff [OF f0 f1 rep i]
  show ?thesis
    using pos by (simp add: getHandoffTarget_def ci Let_def iff)
qed

lemma getHandoffTarget_first_free:
  assumes wf: "wellformed db"
    and rep: "0 \<le> nReplicas db" "nReplicas db \<le> nServers db"
    and i: "0 \<le> i" "i < nServers db"
    and ci: "getCoordinatorIndex db u = Inr first"
    and out: "i \<notin> primarySet_code first (nReplicas db) (nServers db)"
    and k: "0 \<le> k" "k < nServers db" "isFree replicated assigned k"
  shows "\<exists>d. d < nat (nServers db)
           \<and> getHandoffTarget db u i replicated assigned
               = Some (Inr ((first + int d) mod nServers db))
           \<and> isFree replicated assigned ((first + int d) mod nServers db)
           \<and> (\<forall>e<d. \<not> isFree replicated assigned ((first + int e) mod nServers db))"
proof -
  from wf have pos: "0 < nServers db" and len: "nServers db = int (length (servers db))"
    by (auto simp: wellformed_def)
  from ci getCoordinatorIndex_wellformed [OF wf, of u]
  have f: "first = int (unat (hash u) mod length (servers db))" by simp
  have f0: "0 \<le> first" using f by simp
  have "unat (hash u) mod length (servers db) < length (servers db)" using pos len by simp
  then have f1: "first < nServers db" using f len by simp
  have "getHandoffTarget db u i replicated assigned
        = handoffScan (nServers db) replicated assigned first"
    using getHandoffTarget_cases [OF wf rep i ci] out by simp
  with handoffScan_first_free [OF f0 f1 k] show ?thesis by simp
qed

lemma primarySet_spec_subset_code:
  "primarySet_spec first nRep nS \<subseteq> primarySet_code first nRep nS"
  by (auto simp: primarySet_spec_def primarySet_code_def)

lemma primarySet_code_extra:
  assumes "0 \<le> nRep"
  shows "(first + nRep) mod nS \<in> primarySet_code first nRep nS"
proof -
  have "(first + nRep) mod nS \<in> (\<lambda>k. (first + int k) mod nS) ` {0..<nat nRep + 1}"
    using assms by (intro image_eqI [of _ _ "nat nRep"]) simp_all
  then show ?thesis unfolding primarySet_code_def set_map set_upt .
qed


lemma extra_index_not_primary:
  assumes "0 \<le> nRep" "nRep < nS"
  shows "(first + nRep) mod nS \<notin> primarySet_spec first nRep nS"
proof
  assume "(first + nRep) mod nS \<in> primarySet_spec first nRep nS"
  then have "(first + nRep) mod nS \<in> (\<lambda>k. (first + int k) mod nS) ` {0..<nat nRep}"
    unfolding primarySet_spec_def set_map set_upt .
  then obtain k where k: "k < nat nRep" "(first + nRep) mod nS = (first + int k) mod nS"
    by auto
  then have "nS dvd (first + nRep) - (first + int k)"
    by (simp only: mod_eq_dvd_iff)
  then have dv: "nS dvd nRep - int k" by simp
  have "0 < nRep - int k" "nRep - int k < nS" using k(1) assms by auto
  with dv show False using zdvd_not_zless by blast
qed

lemma getHandoffTarget_extra_index:
  assumes wf: "wellformed db"
    and rep: "0 \<le> nReplicas db" "nReplicas db < nServers db"
    and ci: "getCoordinatorIndex db u = Inr first"
  shows "getHandoffTarget db u ((first + nReplicas db) mod nServers db) replicated assigned
           = Some (Inr (- 1))
         \<and> (first + nReplicas db) mod nServers db
             \<notin> primarySet_spec first (nReplicas db) (nServers db)"
proof -
  let ?i = "(first + nReplicas db) mod nServers db"
  from wf have pos: "0 < nServers db" unfolding wellformed_def by blast
  then have i: "0 \<le> ?i" "?i < nServers db" by simp_all
  have le: "nReplicas db \<le> nServers db" using rep by simp
  have "?i \<in> primarySet_code first (nReplicas db) (nServers db)"
    using rep(1) by (rule primarySet_code_extra)
  then have "getHandoffTarget db u ?i replicated assigned = Some (Inr (- 1))"
    using getHandoffTarget_cases [OF wf rep(1) le i ci] by simp
  moreover have "?i \<notin> primarySet_spec first (nReplicas db) (nServers db)"
    using rep by (rule extra_index_not_primary)
  ultimately show ?thesis by simp
qed

text \<open>
  Claim C2. The claim is that \<open>getHandoffTarget\<close> returns \<open>-1\<close> exactly for the
  candidates in the half-open rotation \<open>[first, first + nReplicas)\<close>. On the cluster of
  five nodes with three replicas, the username \<open>dave\<close> has coordinator index 1, so the
  primary set is \<open>{1, 2, 3}\<close>; for the candidate 4, which is outside it, the function
  returns \<open>-1\<close> all the same: the range check compares with
  \<open>lastReplica = firstReplica + nReplicas\<close> by \<open>\<le>\<close>. The same holds on every node
  with fewer replicas than servers, for the candidate \<open>(first + nReplicas) mod nServers\<close>
  (\<open>getHandoffTarget_extra_index\<close>).
\<close>

theorem getHandoffTarget_off_by_one:
  "getCoordinatorIndex (node5 1) ''dave'' = Inr 1
   \<and> 4 \<notin> primarySet_spec 1 (nReplicas (node5 1)) (nServers (node5 1))
   \<and> getHandoffTarget (node5 1) ''dave'' 4 Map.empty Map.empty = Some (Inr (- 1))"
  by code_simp


text \<open>
  Claim C8. The claim is that for a candidate outside the primary set, with
  \<open>nReplicas \<le> nServers\<close> and a free index, the scan returns the first free index from
  the coordinator index on. For the username \<open>alice\<close> (coordinator index 4, primary set
  \<open>{4, 0, 1}\<close>), the candidate 2 and node 4 already replicated, the scan from 4 would
  return the free index 0, but \<open>getHandoffTarget\<close> returns \<open>-1\<close> before it reaches the
  scan. For the candidates that the range check lets through, the scan does return the
  first free index (\<open>getHandoffTarget_first_free\<close>).
\<close>

theorem getHandoffTarget_skips_scan:
  "getCoordinatorIndex (node5 4) ''alice'' = Inr 4
   \<and> nReplicas (node5 4) \<le> nServers (node5 4)
   \<and> 2 \<notin> primarySet_spec 4 (nReplicas (node5 4)) (nServers (node5 4))
   \<and> isFree [4 \<mapsto> True] Map.empty 0
   \<and> handoffScan (nServers (node5 4)) [4 \<mapsto> True] Map.empty 4 = Some (Inr 0)
   \<and> getHandoffTarget (node5 4) ''alice'' 2 [4 \<mapsto> True] Map.empty = Some (Inr (- 1))"
  by code_simp


section \<open>The fan-out of CoordinatorPut\<close>

text \<open>
  Claim C3. The claim is that a message sent to a candidate outside the primary set
  carries as \<open>handoffDestination\<close> the address of the node \<open>j\<close> that
  \<open>getHandoffTarget\<close> returned. On node 1 of the five-node cluster, for the username
  \<open>dave\<close> and the candidate 0, \<open>getHandoffTarget\<close> returns 1 and node 1 is marked in
  \<open>handoffTargets\<close>, but the message that is sent has \<open>handoffDestination = servers[0]\<close>,
  the address at the candidate's own index, not \<open>servers[1]\<close>.
\<close>

theorem fanOut_wrong_destination:
  "getHandoffTarget (node5 1) ''dave'' 0 Map.empty Map.empty = Some (Inr 1)
   \<and> 0 \<notin> primarySet_spec 1 (nReplicas (node5 1)) (nServers (node5 1))
   \<and> servers (node5 1) ! 1 = ''s1''
   \<and> map_sum id (\<lambda>(m, targets). (handoffDestination m, lookup targets 1))
        (setHintedHandoff (node5 1) ''dave'' 0 1 msg0 Map.empty) = Inr (''s0'', True)
   \<and> map_option (map_sum id (\<lambda>st. (message st, lookup (handoffTargets st) 1)))
        (fanOut 1 ''dave'' 0 ''s1''
           \<lparr>totalReplicas = 0, replicaLocations = Map.empty, handoffTargets = Map.empty,
            message = msg0, cluster = world5 [Delivered]\<rparr>)
     = Some (Inr (msg0\<lparr>isHandoff := True, handoffDestination := ''s0'',
                        handoffUsername := ''dave''\<rparr>, True))"
  by code_simp


text \<open>
  Claim C1. The claim is that after a \<open>CoordinatorPut\<close> that returns \<open>OK\<close> at least
  \<open>nReplicas\<close> distinct nodes hold the message. On node 1 of the five-node cluster, for
  the username \<open>dave\<close>, with the first two remote calls delivered and the next two
  dropped, \<open>CoordinatorPut\<close> returns \<open>OK\<close> and the message is held by the nodes 1 and 3
  only, while \<open>nReplicas\<close> is 3: the first call went to node 1 itself and was counted,
  and the final \<open>LocalPut\<close> is on node 1 again.
\<close>

theorem CoordinatorPut_two_holders:
  "map_option (map_sum id (\<lambda>(e, w). (e, holders w ''dave'' msg0)))
     (CoordinatorPut (world5 [Delivered, Delivered, Dropped, Dropped]) 1 ''dave'' rid0 msg0)
   = Some (Inr (OK, [1, 3]))
   \<and> nReplicas (nodes (world5 [Delivered, Delivered, Dropped, Dropped]) ! 1) = 3"
  by code_simp


section \<open>The hint queue\<close>

lemma ReplicaPut_queue_isHandoff:
  "list_all isHandoff (handoffMessages db) \<Longrightarrow>
   list_all isHandoff (handoffMessages (fst (ReplicaPut db args)))"
  by (simp add: ReplicaPut_def LocalPut_def Let_def)

lemma removeMessage_queue_subset:
  assumes "removeMessage q k = Inr q'"
  shows "set q' \<subseteq> set q"
proof -
  from assms have k: "0 \<le> k" "k < int (length q)"
    by (auto simp: removeMessage_def Let_def split: if_splits)
  then have kn: "nat k < length q" by simp
  from removeMessage_eq [OF k] assms mset_swap_last [OF kn]
  have "mset q' = mset q - {# q ! nat k #}" by simp
  then have "set_mset (mset q') \<subseteq> set_mset (mset q)"
    by (metis in_diffD subsetI)
  then show ?thesis by simp
qed

lemma removeMessage_queue_isHandoff:
  "removeMessage q k = Inr q' \<Longrightarrow> list_all isHandoff q \<Longrightarrow> list_all isHandoff q'"
  using removeMessage_queue_subset [of q k q'] by (auto simp: list_all_iff)

text \<open>
  Claim C7. The claim is that no node ever enqueues a hint whose destination is the
  node itself. On node 0 of the five-node cluster, for the username \<open>a\<close> (coordinator
  index 0), with the third remote call dropped and the others delivered,
  \<open>CoordinatorPut\<close> returns \<open>OK\<close> and leaves in the hint queue of node 4 a message with
  \<open>isHandoff\<close> set whose \<open>handoffDestination\<close> is the address of node 4. (That every
  queued message has \<open>isHandoff\<close> set is kept by \<open>ReplicaPut\<close> and \<open>removeMessage\<close>, see
  the two lemmas above.)
\<close>

theorem CoordinatorPut_hint_to_self:
  "map_option (map_sum id (\<lambda>(e, w). (e, address (nodes w ! 4), handoffMessages (nodes w ! 4))))
     (CoordinatorPut (world5 [Delivered, Delivered, Dropped, Delivered]) 0 ''a'' rid0 msg0)
   = Some (Inr (OK, Some ''s4'',
        [msg0\<lparr>isHandoff := True, handoffDestination := ''s4'', handoffUsername := ''a''\<rparr>]))"
  by code_simp


end
